theory Spec2Isabelle
  imports Main "HOL-Library.AList" "HOL-Library.Multiset"
begin

section \<open>The timetable CSP of \<open>timetable_csp.py\<close>\<close>

text \<open>
  The class \<open>TimetableCSP\<close> keeps the catalogue (days, time slots, subjects, teachers,
  classrooms, the teacher-to-subjects dictionary, the subject-to-periods dictionary) and
  the current assignment, a dictionary from (day, time slot) to (subject, teacher,
  classroom). Python dictionaries keep insertion order and have unique keys, so each one
  is an association list; \<open>d[k]\<close> raises \<open>KeyError\<close> on a missing key, \<open>d[k] = v\<close>
  replaces the value of a present key in place and appends a new key at the end, and
  \<open>del d[k]\<close> raises \<open>KeyError\<close> on a missing key.
\<close>

subsection \<open>Data\<close>

datatype error = KeyError

type_synonym slot = "string \<times> string"

type_synonym activity = "string \<times> string \<times> string"

record TimetableCSP =
  days :: "string list"
  time_slots :: "string list"
  subjects :: "string list"
  teachers :: "string list"
  classrooms :: "string list"
  teacher_subjects :: "(string \<times> string list) list"
  subject_periods :: "(string \<times> int) list"
  assignment :: "(slot \<times> activity) list"

text \<open>The object built by \<open>__init__\<close>.\<close>

definition init :: TimetableCSP where
  "init = \<lparr>
     days = [''Monday'', ''Tuesday'', ''Wednesday'', ''Thursday'', ''Friday''],
     time_slots = [''9:00-10:00'', ''10:00-11:00'', ''11:00-12:00'', ''14:00-15:00'',
                   ''15:00-16:00''],
     subjects = [''Math'', ''Physics'', ''Chemistry'', ''English'', ''History''],
     teachers = [''Teacher_A'', ''Teacher_B'', ''Teacher_C'', ''Teacher_D'', ''Teacher_E''],
     classrooms = [''Room_101'', ''Room_102'', ''Room_103'', ''Room_104'', ''Room_105''],
     teacher_subjects = [
       (''Teacher_A'', [''Math'', ''Physics'']),
       (''Teacher_B'', [''Chemistry'', ''Physics'']),
       (''Teacher_C'', [''English'', ''History'']),
       (''Teacher_D'', [''Math'', ''History'']),
       (''Teacher_E'', [''Chemistry'', ''English''])],
     subject_periods = [
       (''Math'', 3), (''Physics'', 2), (''Chemistry'', 2), (''English'', 2),
       (''History'', 1)],
     assignment = [] \<rparr>"

subsection \<open>Dictionary operations\<close>

definition dict_getitem :: "('k \<times> 'v) list \<Rightarrow> 'k \<Rightarrow> error + 'v" where
  "dict_getitem d k = (case map_of d k of None \<Rightarrow> Inl KeyError | Some v \<Rightarrow> Inr v)"

definition dict_setitem :: "('k \<times> 'v) list \<Rightarrow> 'k \<Rightarrow> 'v \<Rightarrow> ('k \<times> 'v) list" where
  "dict_setitem d k v = AList.update k v d"

definition dict_delitem :: "('k \<times> 'v) list \<Rightarrow> 'k \<Rightarrow> error + ('k \<times> 'v) list" where
  "dict_delitem d k =
     (case map_of d k of None \<Rightarrow> Inl KeyError | Some v \<Rightarrow> Inr (AList.delete k d))"

subsection \<open>\<open>is_valid_assignment\<close>\<close>

text \<open>The two loops over \<open>self.assignment.items()\<close>; each is true when the loop reaches
  its \<open>return False\<close>.\<close>

fun teacher_loop :: "(slot \<times> activity) list \<Rightarrow> string \<Rightarrow> string \<Rightarrow> string \<Rightarrow> bool" where
  "teacher_loop [] day time_slot teacher = False"
| "teacher_loop (((d, t), (s, teach, room)) # items) day time_slot teacher =
     (if d = day \<and> t = time_slot \<and> teach = teacher then True
      else teacher_loop items day time_slot teacher)"

fun classroom_loop :: "(slot \<times> activity) list \<Rightarrow> string \<Rightarrow> string \<Rightarrow> string \<Rightarrow> bool" where
  "classroom_loop [] day time_slot classroom = False"
| "classroom_loop (((d, t), (s, teach, room)) # items) day time_slot classroom =
     (if d = day \<and> t = time_slot \<and> room = classroom then True
      else classroom_loop items day time_slot classroom)"

definition is_valid_assignment ::
  "TimetableCSP \<Rightarrow> string \<Rightarrow> string \<Rightarrow> string \<Rightarrow> string \<Rightarrow> string \<Rightarrow> error + bool" where
  "is_valid_assignment self day time_slot subject teacher classroom =
     (case dict_getitem (teacher_subjects self) teacher of
        Inl e \<Rightarrow> Inl e
      | Inr subs \<Rightarrow>
          if subject \<notin> set subs then Inr False
          else if teacher_loop (assignment self) day time_slot teacher then Inr False
          else if classroom_loop (assignment self) day time_slot classroom then Inr False
          else Inr True)"

subsection \<open>\<open>get_subject_count\<close> and \<open>is_complete\<close>\<close>

fun count_loop :: "activity list \<Rightarrow> string \<Rightarrow> int \<Rightarrow> int" where
  "count_loop [] subject cnt = cnt"
| "count_loop ((s, teach, room) # vals) subject cnt =
     count_loop vals subject (if s = subject then cnt + 1 else cnt)"

definition get_subject_count :: "TimetableCSP \<Rightarrow> string \<Rightarrow> int" where
  "get_subject_count self subject = count_loop (map snd (assignment self)) subject 0"

fun complete_loop :: "TimetableCSP \<Rightarrow> (string \<times> int) list \<Rightarrow> bool" where
  "complete_loop self [] = True"
| "complete_loop self ((subject, required_periods) # items) =
     (if get_subject_count self subject < required_periods then False
      else complete_loop self items)"

definition is_complete :: "TimetableCSP \<Rightarrow> bool" where
  "is_complete self = complete_loop self (subject_periods self)"

subsection \<open>\<open>get_unassigned_variables\<close>\<close>

definition all_slots :: "TimetableCSP \<Rightarrow> slot list" where
  "all_slots self = concat (map (\<lambda>day. map (\<lambda>time. (day, time)) (time_slots self)) (days self))"

definition get_unassigned_variables :: "TimetableCSP \<Rightarrow> slot list" where
  "get_unassigned_variables self =
     (let assigned_slots = map fst (assignment self)
      in filter (\<lambda>slot. slot \<notin> set assigned_slots) (all_slots self))"

subsection \<open>\<open>get_domain_values\<close>\<close>

definition needed_subjects :: "TimetableCSP \<Rightarrow> string list" where
  "needed_subjects self =
     map fst (filter (\<lambda>(subject, required). get_subject_count self subject < required)
                (subject_periods self))"

text \<open>The three nested loops, innermost first; \<open>values\<close> is the list being appended to.\<close>

fun for_classroom ::
  "TimetableCSP \<Rightarrow> string \<Rightarrow> string \<Rightarrow> string \<Rightarrow> string \<Rightarrow> string list \<Rightarrow> activity list
     \<Rightarrow> error + activity list" where
  "for_classroom self day time_slot subject teacher [] vals = Inr vals"
| "for_classroom self day time_slot subject teacher (classroom # cs) vals =
     (case is_valid_assignment self day time_slot subject teacher classroom of
        Inl e \<Rightarrow> Inl e
      | Inr ok \<Rightarrow>
          for_classroom self day time_slot subject teacher cs
            (if ok then vals @ [(subject, teacher, classroom)] else vals))"

fun for_teacher ::
  "TimetableCSP \<Rightarrow> string \<Rightarrow> string \<Rightarrow> string \<Rightarrow> string list \<Rightarrow> activity list
     \<Rightarrow> error + activity list" where
  "for_teacher self day time_slot subject [] vals = Inr vals"
| "for_teacher self day time_slot subject (teacher # ts) vals =
     (case dict_getitem (teacher_subjects self) teacher of
        Inl e \<Rightarrow> Inl e
      | Inr subs \<Rightarrow>
          if subject \<in> set subs then
            (case for_classroom self day time_slot subject teacher (classrooms self) vals of
               Inl e \<Rightarrow> Inl e
             | Inr vals' \<Rightarrow> for_teacher self day time_slot subject ts vals')
          else for_teacher self day time_slot subject ts vals)"

fun for_subject ::
  "TimetableCSP \<Rightarrow> string \<Rightarrow> string \<Rightarrow> string list \<Rightarrow> activity list \<Rightarrow> error + activity list" where
  "for_subject self day time_slot [] vals = Inr vals"
| "for_subject self day time_slot (subject # ss) vals =
     (case for_teacher self day time_slot subject (teachers self) vals of
        Inl e \<Rightarrow> Inl e
      | Inr vals' \<Rightarrow> for_subject self day time_slot ss vals')"

definition get_domain_values :: "TimetableCSP \<Rightarrow> string \<Rightarrow> string \<Rightarrow> error + activity list" where
  "get_domain_values self day time_slot =
     for_subject self day time_slot (needed_subjects self) []"

subsection \<open>\<open>backtrack\<close> and \<open>solve\<close>\<close>

text \<open>
  \<open>random.shuffle\<close> permutes the list in place; which permutation it picks depends on
  the state of the random generator. The generator is a parameter: a state of any type
  \<open>'g\<close> and a function \<open>shuffle\<close> that returns the reordered list and the next state.
  \<open>is_shuffle\<close> says that the result is a permutation of the argument.

  The recursion of \<open>backtrack\<close> is bounded by fuel, one unit for each nested call:
  \<open>None\<close> means that the fuel ran out before the call returned. An exception is \<open>Inl\<close>;
  a normal return is \<open>Inr\<close> of the boolean, the object after the call and the
  generator's state. The limit of the interpreter on the depth of the stack is not part
  of the model.
\<close>

definition is_shuffle :: "('g \<Rightarrow> activity list \<Rightarrow> activity list \<times> 'g) \<Rightarrow> bool" where
  "is_shuffle shuffle = (\<forall>g vals. mset (fst (shuffle g vals)) = mset vals)"

type_synonym 'g outcome = "(error + bool \<times> TimetableCSP \<times> 'g) option"

text \<open>The \<open>for\<close> loop of \<open>backtrack\<close> (lines 109 to 120); \<open>rec\<close> is the recursive call.\<close>

fun for_value ::
  "(TimetableCSP \<Rightarrow> 'g \<Rightarrow> 'g outcome) \<Rightarrow> string \<Rightarrow> string \<Rightarrow> activity list \<Rightarrow> TimetableCSP \<Rightarrow> 'g
     \<Rightarrow> 'g outcome" where
  "for_value rec day time_slot [] self g = Some (Inr (False, self, g))"
| "for_value rec day time_slot ((subject, teacher, classroom) # vals) self g =
     (case rec (self\<lparr>assignment :=
                  dict_setitem (assignment self) (day, time_slot) (subject, teacher, classroom)\<rparr>) g of
        None \<Rightarrow> None
      | Some (Inl e) \<Rightarrow> Some (Inl e)
      | Some (Inr (found, self', g')) \<Rightarrow>
          if found then Some (Inr (True, self', g'))
          else (case dict_delitem (assignment self') (day, time_slot) of
                  Inl e \<Rightarrow> Some (Inl e)
                | Inr a \<Rightarrow> for_value rec day time_slot vals (self'\<lparr>assignment := a\<rparr>) g'))"

fun backtrack ::
  "nat \<Rightarrow> ('g \<Rightarrow> activity list \<Rightarrow> activity list \<times> 'g) \<Rightarrow> TimetableCSP \<Rightarrow> 'g \<Rightarrow> 'g outcome" where
  "backtrack 0 shuffle self g = None"
| "backtrack (Suc fuel) shuffle self g =
     (if is_complete self then Some (Inr (True, self, g))
      else
        (case get_unassigned_variables self of
           [] \<Rightarrow> Some (Inr (is_complete self, self, g))
         | (day, time_slot) # _ \<Rightarrow>
             (case get_domain_values self day time_slot of
                Inl e \<Rightarrow> Some (Inl e)
              | Inr domain_values \<Rightarrow>
                  (case shuffle g domain_values of
                     (shuffled, g') \<Rightarrow>
                       for_value (\<lambda>s h. backtrack fuel shuffle s h) day time_slot shuffled self g'))))"

definition solve ::
  "nat \<Rightarrow> ('g \<Rightarrow> activity list \<Rightarrow> activity list \<times> 'g) \<Rightarrow> TimetableCSP \<Rightarrow> 'g \<Rightarrow> 'g outcome" where
  "solve fuel shuffle self g = backtrack fuel shuffle (self\<lparr>assignment := []\<rparr>) g"

subsection \<open>Predicates used in the statements\<close>

definition capable :: "TimetableCSP \<Rightarrow> string \<Rightarrow> string \<Rightarrow> bool" where
  "capable self teacher subject =
     (case map_of (teacher_subjects self) teacher of
        None \<Rightarrow> False
      | Some subs \<Rightarrow> subject \<in> set subs)"

definition teachers_known :: "TimetableCSP \<Rightarrow> bool" where
  "teachers_known self = (\<forall>t \<in> set (teachers self). map_of (teacher_subjects self) t \<noteq> None)"

definition legal :: "TimetableCSP \<Rightarrow> string \<Rightarrow> string \<Rightarrow> activity \<Rightarrow> bool" where
  "legal self day time_slot v =
     (case v of (subject, teacher, classroom) \<Rightarrow>
        is_valid_assignment self day time_slot subject teacher classroom = Inr True)"

definition teacher_values :: "TimetableCSP \<Rightarrow> string \<Rightarrow> string \<Rightarrow> string \<Rightarrow> string \<Rightarrow> activity list" where
  "teacher_values self day time_slot subject teacher =
     (if capable self teacher subject
      then filter (legal self day time_slot) (map (\<lambda>c. (subject, teacher, c)) (classrooms self))
      else [])"

text \<open>Counts against quotas, over the items of \<open>subject_periods\<close>.\<close>

definition quota_not_exceeded :: "TimetableCSP \<Rightarrow> bool" where
  "quota_not_exceeded self =
     (\<forall>(subject, required) \<in> set (subject_periods self).
        get_subject_count self subject \<le> required)"

definition quota_exact :: "TimetableCSP \<Rightarrow> bool" where
  "quota_exact self =
     (\<forall>(subject, required) \<in> set (subject_periods self).
        get_subject_count self subject = required)"

subsection \<open>The objects a search passes through\<close>

text \<open>
  \<open>visited self s\<close>: the object \<open>s\<close> can occur while \<open>solve\<close> runs on \<open>self\<close>. \<open>solve\<close>
  starts from the empty assignment (line 124); \<open>backtrack\<close> binds the first unassigned
  slot of an incomplete object to one of the values \<open>get_domain_values\<close> returned for it
  (lines 95 to 111), and deletes a binding (line 118). The third rule lets any bound slot
  be deleted, which is more than the loop does.
\<close>

inductive visited :: "TimetableCSP \<Rightarrow> TimetableCSP \<Rightarrow> bool" for self :: TimetableCSP where
  start: "visited self (self\<lparr>assignment := []\<rparr>)"
| bind: "visited self s \<Longrightarrow> \<not> is_complete s
         \<Longrightarrow> get_unassigned_variables s = (day, time_slot) # rest
         \<Longrightarrow> get_domain_values s day time_slot = Inr domain_values
         \<Longrightarrow> v \<in> set domain_values
         \<Longrightarrow> visited self (s\<lparr>assignment := dict_setitem (assignment s) (day, time_slot) v\<rparr>)"
| unbind: "visited self s \<Longrightarrow> dict_delitem (assignment s) slot = Inr a
         \<Longrightarrow> visited self (s\<lparr>assignment := a\<rparr>)"

text \<open>
  What every binding of an object should satisfy: the slots are bound once each and are
  slots of the catalogue; each bound teacher and classroom is of the catalogue, the
  teacher is capable of the bound subject, and the subject has a quota; no subject with a
  quota of zero or more is bound more often than its quota.
\<close>

definition consistent :: "TimetableCSP \<Rightarrow> bool" where
  "consistent self =
     (distinct (map fst (assignment self))
      \<and> fst ` set (assignment self) \<subseteq> set (all_slots self)
      \<and> (\<forall>(slot, subject, teacher, classroom) \<in> set (assignment self).
            teacher \<in> set (teachers self) \<and> classroom \<in> set (classrooms self)
            \<and> capable self teacher subject
            \<and> subject \<in> fst ` set (subject_periods self))
      \<and> (\<forall>(subject, required) \<in> set (subject_periods self).
            0 \<le> required \<longrightarrow> get_subject_count self subject \<le> required))"

subsection \<open>Concrete objects\<close>

text \<open>The catalogue of \<open>__init__\<close> with one slot bound.\<close>

definition one_bound :: TimetableCSP where
  "one_bound = init\<lparr>assignment :=
     [((''Monday'', ''9:00-10:00''), (''Math'', ''Teacher_A'', ''Room_101''))]\<rparr>"

text \<open>The catalogue of \<open>__init__\<close> with ten slots bound, each subject as often as its
  quota asks; the other fifteen slots are free.\<close>

definition exact_quota :: TimetableCSP where
  "exact_quota = init\<lparr>assignment :=
     [((''Monday'', ''9:00-10:00''), (''Math'', ''Teacher_A'', ''Room_101'')),
      ((''Monday'', ''10:00-11:00''), (''Math'', ''Teacher_A'', ''Room_101'')),
      ((''Monday'', ''11:00-12:00''), (''Math'', ''Teacher_A'', ''Room_101'')),
      ((''Monday'', ''14:00-15:00''), (''Physics'', ''Teacher_A'', ''Room_101'')),
      ((''Monday'', ''15:00-16:00''), (''Physics'', ''Teacher_A'', ''Room_101'')),
      ((''Tuesday'', ''9:00-10:00''), (''Chemistry'', ''Teacher_B'', ''Room_101'')),
      ((''Tuesday'', ''10:00-11:00''), (''Chemistry'', ''Teacher_B'', ''Room_101'')),
      ((''Tuesday'', ''11:00-12:00''), (''English'', ''Teacher_C'', ''Room_101'')),
      ((''Tuesday'', ''14:00-15:00''), (''English'', ''Teacher_C'', ''Room_101'')),
      ((''Tuesday'', ''15:00-16:00''), (''History'', ''Teacher_C'', ''Room_101''))]\<rparr>"

text \<open>The same with an eleventh slot bound to Math, a fourth period against a quota of
  three.\<close>

definition over_quota :: TimetableCSP where
  "over_quota = exact_quota\<lparr>assignment :=
     assignment exact_quota @
       [((''Wednesday'', ''9:00-10:00''), (''Math'', ''Teacher_A'', ''Room_101''))]\<rparr>"

text \<open>A catalogue with a single slot and a quota of two Math periods, which has no
  solution.\<close>

definition tiny :: TimetableCSP where
  "tiny = init\<lparr>days := [''Monday''], time_slots := [''9:00-10:00''],
     subject_periods := [(''Math'', 2)]\<rparr>"

text \<open>A generator that leaves every list in its order.\<close>

definition keep_order :: "unit \<Rightarrow> activity list \<Rightarrow> activity list \<times> unit" where
  "keep_order g vals = (vals, g)"

subsection \<open>Catalogues without a solution\<close>

text \<open>A solution of a catalogue is an assignment that is consistent and complete.\<close>

definition feasible :: "TimetableCSP \<Rightarrow> bool" where
  "feasible self =
     (\<exists>a. consistent (self\<lparr>assignment := a\<rparr>) \<and> is_complete (self\<lparr>assignment := a\<rparr>))"

text \<open>The quotas add up to more periods than there are slots.\<close>

definition over_capacity :: "TimetableCSP \<Rightarrow> bool" where
  "over_capacity self \<longleftrightarrow>
     int (length (all_slots self)) < sum_list (map snd (subject_periods self))"

text \<open>Some subject has a positive quota and no teacher of the catalogue capable of it.\<close>

definition unreachable_subject :: "TimetableCSP \<Rightarrow> bool" where
  "unreachable_subject self =
     (\<exists>(subject, required) \<in> set (subject_periods self).
        0 < required \<and> (\<forall>teacher \<in> set (teachers self). \<not> capable self teacher subject))"

text \<open>The catalogue of \<open>__init__\<close> with the quota of History raised to 30, against 25
  slots.\<close>

definition history_30 :: TimetableCSP where
  "history_30 = init\<lparr>subject_periods :=
     [(''Math'', 3), (''Physics'', 2), (''Chemistry'', 2), (''English'', 2),
      (''History'', 30)]\<rparr>"

text \<open>The catalogue of \<open>__init__\<close> with History taken from the two teachers who had it.\<close>

definition no_historian :: TimetableCSP where
  "no_historian = init\<lparr>teacher_subjects :=
     [(''Teacher_A'', [''Math'', ''Physics'']),
      (''Teacher_B'', [''Chemistry'', ''Physics'']),
      (''Teacher_C'', [''English'']),
      (''Teacher_D'', [''Math'']),
      (''Teacher_E'', [''Chemistry'', ''English''])]\<rparr>"

section \<open>Properties\<close>

subsection \<open>The loops in closed form\<close>

lemma teacher_loop_iff:
  "teacher_loop a day time_slot teacher \<longleftrightarrow>
     (\<exists>s room. ((day, time_slot), (s, teacher, room)) \<in> set a)"
  by (induction a day time_slot teacher rule: teacher_loop.induct) auto

lemma classroom_loop_iff:
  "classroom_loop a day time_slot classroom \<longleftrightarrow>
     (\<exists>s teach. ((day, time_slot), (s, teach, classroom)) \<in> set a)"
  by (induction a day time_slot classroom rule: classroom_loop.induct) auto

lemma count_loop_eq:
  "count_loop vals subject cnt = cnt + int (length (filter (\<lambda>v. fst v = subject) vals))"
  by (induction vals subject cnt rule: count_loop.induct) auto

lemma get_subject_count_eq:
  "get_subject_count self subject =
     int (length (filter (\<lambda>b. fst (snd b) = subject) (assignment self)))"
  by (simp add: get_subject_count_def count_loop_eq filter_map comp_def)

lemma complete_loop_iff:
  "complete_loop self items \<longleftrightarrow> (\<forall>(s, r) \<in> set items. r \<le> get_subject_count self s)"
  by (induction self items rule: complete_loop.induct) auto

lemma is_complete_iff:
  "is_complete self \<longleftrightarrow> (\<forall>(s, r) \<in> set (subject_periods self). r \<le> get_subject_count self s)"
  by (simp add: is_complete_def complete_loop_iff)

lemma is_valid_assignment_eq:
  assumes "map_of (teacher_subjects self) teacher = Some subs"
  shows "is_valid_assignment self day time_slot subject teacher classroom =
           Inr (subject \<in> set subs
                \<and> \<not> (\<exists>s room. ((day, time_slot), (s, teacher, room)) \<in> set (assignment self))
                \<and> \<not> (\<exists>s teach. ((day, time_slot), (s, teach, classroom)) \<in> set (assignment self)))"
  using assms
  by (simp add: is_valid_assignment_def dict_getitem_def teacher_loop_iff classroom_loop_iff)

lemma for_classroom_eq:
  assumes "map_of (teacher_subjects self) teacher = Some subs"
  shows "for_classroom self day time_slot subject teacher cs vals =
           Inr (vals @ filter (legal self day time_slot) (map (\<lambda>c. (subject, teacher, c)) cs))"
proof (induction cs arbitrary: vals)
  case Nil
  show ?case by simp
next
  case (Cons c cs)
  obtain ok where ok: "is_valid_assignment self day time_slot subject teacher c = Inr ok"
    using is_valid_assignment_eq [OF assms] by blast
  show ?case
    by (cases ok) (simp_all add: ok Cons.IH legal_def)
qed

lemma for_teacher_eq:
  assumes "\<forall>t \<in> set ts. map_of (teacher_subjects self) t \<noteq> None"
  shows "for_teacher self day time_slot subject ts vals =
           Inr (vals @ concat (map (teacher_values self day time_slot subject) ts))"
  using assms
proof (induction ts arbitrary: vals)
  case Nil
  show ?case by simp
next
  case (Cons t ts)
  then obtain subs where subs: "map_of (teacher_subjects self) t = Some subs"
    by auto
  show ?case
    using Cons.prems
    by (simp add: dict_getitem_def subs for_classroom_eq [OF subs] Cons.IH
        teacher_values_def capable_def)
qed

lemma for_subject_eq:
  assumes "teachers_known self"
  shows "for_subject self day time_slot ss vals =
           Inr (vals @ concat (map (\<lambda>subject.
                  concat (map (teacher_values self day time_slot subject) (teachers self))) ss))"
proof (induction ss arbitrary: vals)
  case Nil
  show ?case by simp
next
  case (Cons s ss)
  show ?case
    using assms by (simp add: for_teacher_eq teachers_known_def Cons.IH)
qed

lemma get_domain_values_eq:
  assumes "teachers_known self"
  shows "get_domain_values self day time_slot =
           Inr (concat (map (\<lambda>subject.
                  concat (map (teacher_values self day time_slot subject) (teachers self)))
                  (needed_subjects self)))"
  by (simp add: get_domain_values_def for_subject_eq [OF assms])

lemma needed_subjects_iff:
  "subject \<in> set (needed_subjects self) \<longleftrightarrow>
     (\<exists>required. (subject, required) \<in> set (subject_periods self)
        \<and> get_subject_count self subject < required)"
  by (auto simp: needed_subjects_def image_iff)

lemma teacher_values_iff:
  "(s, t, c) \<in> set (teacher_values self day time_slot subject teacher) \<longleftrightarrow>
     s = subject \<and> t = teacher \<and> c \<in> set (classrooms self) \<and> capable self teacher subject
     \<and> is_valid_assignment self day time_slot subject teacher c = Inr True"
  by (auto simp: teacher_values_def legal_def)

lemma get_domain_values_set:
  assumes "teachers_known self" and "get_domain_values self day time_slot = Inr vals"
  shows "(subject, teacher, classroom) \<in> set vals \<longleftrightarrow>
           subject \<in> set (needed_subjects self) \<and> teacher \<in> set (teachers self)
           \<and> classroom \<in> set (classrooms self) \<and> capable self teacher subject
           \<and> is_valid_assignment self day time_slot subject teacher classroom = Inr True"
proof -
  have vals: "vals = concat (map (\<lambda>subject.
                  concat (map (teacher_values self day time_slot subject) (teachers self)))
                  (needed_subjects self))"
    using assms(2) unfolding get_domain_values_eq [OF assms(1)] by simp
  show ?thesis
    unfolding vals by (simp add: teacher_values_iff)
qed

subsection \<open>Facts about the concrete objects\<close>

lemma exact_quota_counts:
  "get_subject_count exact_quota ''Math'' = 3"
  "get_subject_count exact_quota ''Physics'' = 2"
  "get_subject_count exact_quota ''Chemistry'' = 2"
  "get_subject_count exact_quota ''English'' = 2"
  "get_subject_count exact_quota ''History'' = 1"
  by (simp_all add: get_subject_count_def exact_quota_def init_def)

lemma exact_quota_periods:
  "subject_periods exact_quota =
     [(''Math'', 3), (''Physics'', 2), (''Chemistry'', 2), (''English'', 2), (''History'', 1)]"
  by (simp add: exact_quota_def init_def)

subsection \<open>The legality check\<close>

text \<open>
  Claim C6. For a teacher that has an entry in \<open>teacher_subjects\<close>, \<open>is_valid_assignment\<close>
  returns normally, and it returns \<open>False\<close> exactly when the teacher is not capable of
  the subject, or a binding of the same slot has the same teacher, or a binding of the
  same slot has the same classroom; otherwise it returns \<open>True\<close>. The function only
  reads the object.
\<close>

theorem is_valid_assignment_decides:
  assumes "map_of (teacher_subjects self) teacher \<noteq> None"
  shows "is_valid_assignment self day time_slot subject teacher classroom =
           Inr (\<not> (\<not> capable self teacher subject
                  \<or> (\<exists>s room. ((day, time_slot), (s, teacher, room)) \<in> set (assignment self))
                  \<or> (\<exists>s teach. ((day, time_slot), (s, teach, classroom)) \<in> set (assignment self))))"
proof -
  from assms obtain subs where subs: "map_of (teacher_subjects self) teacher = Some subs"
    by auto
  show ?thesis
    by (simp add: is_valid_assignment_eq [OF subs] capable_def subs)
qed

theorem is_valid_assignment_decides_witness:
  "map_of (teacher_subjects one_bound) ''Teacher_A'' \<noteq> None
   \<and> is_valid_assignment one_bound ''Monday'' ''9:00-10:00'' ''Physics'' ''Teacher_A'' ''Room_102''
       = Inr False
   \<and> is_valid_assignment one_bound ''Monday'' ''9:00-10:00'' ''Physics'' ''Teacher_B'' ''Room_102''
       = Inr True"
proof -
  have a: "map_of (teacher_subjects one_bound) ''Teacher_A'' \<noteq> None"
    by (simp add: one_bound_def init_def)
  have b: "map_of (teacher_subjects one_bound) ''Teacher_B'' \<noteq> None"
    by (simp add: one_bound_def init_def)
  have c: "capable one_bound ''Teacher_B'' ''Physics''"
    by (simp add: capable_def one_bound_def init_def)
  have d: "assignment one_bound =
      [((''Monday'', ''9:00-10:00''), (''Math'', ''Teacher_A'', ''Room_101''))]"
    by (simp add: one_bound_def)
  show ?thesis
    using a is_valid_assignment_decides [OF a, of "''Monday''" "''9:00-10:00''" "''Physics''" "''Room_102''"]
      is_valid_assignment_decides [OF b, of "''Monday''" "''9:00-10:00''" "''Physics''" "''Room_102''"]
    by (simp add: c d)
qed

subsection \<open>The completeness test\<close>

text \<open>
  Claim C4, as amended. \<open>is_complete\<close> returns \<open>True\<close> if and only if every subject of
  \<open>subject_periods\<close> is bound at least as often as its quota asks. On an object where no
  subject is bound more often than its quota, that is the same as every count being
  equal to its quota. Free slots do not matter: the witness is complete with fifteen
  slots unassigned.
\<close>

theorem is_complete_at_least:
  "(is_complete self \<longleftrightarrow>
      (\<forall>(subject, required) \<in> set (subject_periods self).
         required \<le> get_subject_count self subject))
   \<and> ((\<forall>(subject, required) \<in> set (subject_periods self).
          get_subject_count self subject \<le> required) \<longrightarrow>
        (is_complete self \<longleftrightarrow>
           (\<forall>(subject, required) \<in> set (subject_periods self).
              get_subject_count self subject = required)))"
  unfolding is_complete_iff by fastforce

theorem is_complete_at_least_witness:
  "quota_not_exceeded exact_quota \<and> is_complete exact_quota \<and> quota_exact exact_quota
   \<and> length (get_unassigned_variables exact_quota) = 15"
proof -
  have le: "\<forall>(subject, required) \<in> set (subject_periods exact_quota).
      get_subject_count exact_quota subject \<le> required"
    by (simp add: exact_quota_periods exact_quota_counts)
  have eq: "\<forall>(subject, required) \<in> set (subject_periods exact_quota).
      get_subject_count exact_quota subject = required"
    by (simp add: exact_quota_periods exact_quota_counts)
  have free: "length (get_unassigned_variables exact_quota) = 15"
    by (simp add: get_unassigned_variables_def all_slots_def exact_quota_def init_def)
  from is_complete_at_least [of exact_quota] le eq have "is_complete exact_quota"
    by blast
  with le eq free show ?thesis
    unfolding quota_not_exceeded_def quota_exact_def by blast
qed

text \<open>
  Claim C4 as stated fails on an object with a subject over its quota: with four Math
  periods against a quota of three, \<open>is_complete\<close> is \<open>True\<close>.
\<close>

theorem is_complete_exact_counterexample:
  "is_complete over_quota
   \<and> map_of (subject_periods over_quota) ''Math'' = Some 3
   \<and> get_subject_count over_quota ''Math'' = 4"
  by (simp add: is_complete_def get_subject_count_def over_quota_def exact_quota_def init_def)

subsection \<open>Binding and unbinding a slot\<close>

lemma update_fresh: "k \<notin> fst ` set a \<Longrightarrow> AList.update k v a = a @ [(k, v)]"
  by (induction a) auto

lemma delete_fresh: "k \<notin> fst ` set a \<Longrightarrow> AList.delete k a = a"
  by (induction a) auto

lemma setitem_delitem:
  assumes "k \<notin> fst ` set a"
  shows "dict_delitem (dict_setitem a k v) k = Inr a"
  using assms
  by (simp add: dict_delitem_def dict_setitem_def update_conv' delete_update_same delete_fresh)

lemma unassigned_head:
  assumes "get_unassigned_variables self = slot # rest"
  shows "slot \<notin> fst ` set (assignment self)" and "slot \<in> set (all_slots self)"
proof -
  have "slot \<in> set (get_unassigned_variables self)"
    using assms by simp
  then show "slot \<notin> fst ` set (assignment self)" and "slot \<in> set (all_slots self)"
    by (simp_all add: get_unassigned_variables_def)
qed

lemma for_value_False_restores:
  assumes rec: "\<And>s h s' h'. rec s h = Some (Inr (False, s', h')) \<Longrightarrow> s' = s"
    and fresh: "(day, time_slot) \<notin> fst ` set (assignment self)"
    and run: "for_value rec day time_slot vals self g = Some (Inr (False, self', g'))"
  shows "self' = self"
  using run
proof (induction vals arbitrary: g)
  case Nil
  then show ?case by simp
next
  case (Cons v vals)
  obtain subject teacher classroom where v: "v = (subject, teacher, classroom)"
    by (cases v) auto
  let ?s1 = "self\<lparr>assignment := dict_setitem (assignment self) (day, time_slot) v\<rparr>"
  from Cons.prems obtain found s2 g2 where r: "rec ?s1 g = Some (Inr (found, s2, g2))"
    by (auto simp: v split: option.splits sum.splits)
  from Cons.prems r have nf: "\<not> found"
    by (auto simp: v split: if_splits)
  with r have "rec ?s1 g = Some (Inr (False, s2, g2))" by simp
  then have s2: "s2 = ?s1" by (rule rec)
  have del: "dict_delitem (assignment s2) (day, time_slot) = Inr (assignment self)"
    by (simp add: s2 setitem_delitem [OF fresh])
  have "for_value rec day time_slot vals self g2 = Some (Inr (False, self', g'))"
    using Cons.prems r nf del by (simp add: v s2)
  then show ?case by (rule Cons.IH)
qed

lemma backtrack_False_restores:
  "backtrack fuel shuffle self g = Some (Inr (False, self', g')) \<Longrightarrow> self' = self"
proof (induction fuel arbitrary: self g self' g')
  case 0
  then show ?case by simp
next
  case (Suc fuel)
  show ?case
  proof (cases "is_complete self")
    case True
    with Suc.prems show ?thesis by simp
  next
    case nc: False
    show ?thesis
    proof (cases "get_unassigned_variables self")
      case Nil
      with Suc.prems nc show ?thesis by simp
    next
      case (Cons slot rest)
      obtain day time_slot where slot: "slot = (day, time_slot)" by (cases slot) auto
      from Suc.prems nc Cons slot obtain dv where
        dv: "get_domain_values self day time_slot = Inr dv"
        by (auto split: sum.splits)
      obtain shuffled g1 where sh: "shuffle g dv = (shuffled, g1)"
        by (cases "shuffle g dv") auto
      have run: "for_value (\<lambda>s h. backtrack fuel shuffle s h) day time_slot shuffled self g1
                   = Some (Inr (False, self', g'))"
        using Suc.prems nc Cons slot dv sh by simp
      have fresh: "(day, time_slot) \<notin> fst ` set (assignment self)"
        using unassigned_head(1) [OF Cons] slot by simp
      show ?thesis
        by (rule for_value_False_restores [OF _ fresh run]) (rule Suc.IH)
    qed
  qed
qed

text \<open>
  Claim C8. When a call of \<open>backtrack\<close> returns \<open>False\<close>, the object it returns is the
  object it was called on: every binding the loop made has been deleted again.
\<close>

theorem backtrack_exhausted_unchanged:
  assumes "backtrack fuel shuffle self g = Some (Inr (False, self', g'))"
  shows "self' = self \<and> assignment self' = assignment self"
  using backtrack_False_restores [OF assms] by simp

theorem backtrack_exhausted_unchanged_witness:
  "backtrack 3 keep_order tiny () = Some (Inr (False, tiny, ()))
   \<and> tiny = tiny \<and> assignment tiny = assignment tiny"
proof -
  have run: "backtrack 3 keep_order tiny () = Some (Inr (False, tiny, ()))"
    by code_simp
  show ?thesis
    by (rule conjI [OF run backtrack_exhausted_unchanged [OF run]])
qed

lemma one_bound_fields:
  "teachers one_bound = [''Teacher_A'', ''Teacher_B'', ''Teacher_C'', ''Teacher_D'', ''Teacher_E'']"
  "classrooms one_bound = [''Room_101'', ''Room_102'', ''Room_103'', ''Room_104'', ''Room_105'']"
  "subject_periods one_bound =
     [(''Math'', 3), (''Physics'', 2), (''Chemistry'', 2), (''English'', 2), (''History'', 1)]"
  "assignment one_bound = [((''Monday'', ''9:00-10:00''), (''Math'', ''Teacher_A'', ''Room_101''))]"
  by (simp_all add: one_bound_def init_def)

lemma one_bound_known: "teachers_known one_bound"
  by (simp add: teachers_known_def one_bound_def init_def)

subsection \<open>The candidate values of a slot\<close>

text \<open>
  Claim C5. When every teacher of \<open>teachers\<close> has an entry in \<open>teacher_subjects\<close>,
  \<open>get_domain_values\<close> returns normally, and a triple of a subject, a teacher of
  \<open>teachers\<close> and a classroom of \<open>classrooms\<close> is in the returned list if and only if
  the subject's count is below its quota, the teacher is capable of the subject and
  \<open>is_valid_assignment\<close> accepts the triple for the slot.
\<close>

theorem get_domain_values_exact:
  assumes "teachers_known self"
  shows "\<exists>vals. get_domain_values self day time_slot = Inr vals
           \<and> (\<forall>subject teacher classroom.
                (subject, teacher, classroom) \<in> set vals \<longleftrightarrow>
                  (\<exists>required. (subject, required) \<in> set (subject_periods self)
                     \<and> get_subject_count self subject < required)
                  \<and> teacher \<in> set (teachers self) \<and> classroom \<in> set (classrooms self)
                  \<and> capable self teacher subject
                  \<and> is_valid_assignment self day time_slot subject teacher classroom = Inr True)"
proof -
  obtain vals where vals: "get_domain_values self day time_slot = Inr vals"
    using get_domain_values_eq [OF assms] by blast
  show ?thesis
    using vals get_domain_values_set [OF assms vals]
    by (simp add: needed_subjects_iff)
qed

theorem get_domain_values_exact_witness:
  "teachers_known one_bound
   \<and> (\<exists>vals. get_domain_values one_bound ''Monday'' ''9:00-10:00'' = Inr vals
        \<and> (''Physics'', ''Teacher_B'', ''Room_102'') \<in> set vals
        \<and> (''Physics'', ''Teacher_A'', ''Room_102'') \<notin> set vals
        \<and> (''Physics'', ''Teacher_B'', ''Room_101'') \<notin> set vals
        \<and> (''Math'', ''Teacher_B'', ''Room_102'') \<notin> set vals)"
proof -
  have cap: "capable one_bound ''Teacher_B'' ''Physics''"
       "\<not> capable one_bound ''Teacher_B'' ''Math''"
    by (simp_all add: capable_def one_bound_def init_def)
  have cnt: "get_subject_count one_bound ''Physics'' = 0"
    by (simp add: get_subject_count_def one_bound_fields)
  have v: "is_valid_assignment one_bound ''Monday'' ''9:00-10:00'' ''Physics'' ''Teacher_B'' ''Room_102'' = Inr True"
       "is_valid_assignment one_bound ''Monday'' ''9:00-10:00'' ''Physics'' ''Teacher_A'' ''Room_102'' = Inr False"
       "is_valid_assignment one_bound ''Monday'' ''9:00-10:00'' ''Physics'' ''Teacher_B'' ''Room_101'' = Inr False"
    by (simp_all add: is_valid_assignment_def dict_getitem_def one_bound_def init_def)
  from get_domain_values_exact [OF one_bound_known, of "''Monday''" "''9:00-10:00''"]
  obtain vals where vals: "get_domain_values one_bound ''Monday'' ''9:00-10:00'' = Inr vals"
    and iff: "\<And>subject teacher classroom.
                (subject, teacher, classroom) \<in> set vals \<longleftrightarrow>
                  (\<exists>required. (subject, required) \<in> set (subject_periods one_bound)
                     \<and> get_subject_count one_bound subject < required)
                  \<and> teacher \<in> set (teachers one_bound) \<and> classroom \<in> set (classrooms one_bound)
                  \<and> capable one_bound teacher subject
                  \<and> is_valid_assignment one_bound ''Monday'' ''9:00-10:00'' subject teacher classroom = Inr True"
    by blast
  have "(''Physics'', ''Teacher_B'', ''Room_102'') \<in> set vals"
    unfolding iff by (simp add: cap v cnt one_bound_fields)
  moreover have "(''Physics'', ''Teacher_A'', ''Room_102'') \<notin> set vals"
    unfolding iff by (simp add: v)
  moreover have "(''Physics'', ''Teacher_B'', ''Room_101'') \<notin> set vals"
    unfolding iff by (simp add: v)
  moreover have "(''Math'', ''Teacher_B'', ''Room_102'') \<notin> set vals"
    unfolding iff by (simp add: cap)
  ultimately show ?thesis
    using one_bound_known vals by blast
qed

subsection \<open>A bound slot and the legality check\<close>

text \<open>
  Claim C10. \<open>is_valid_assignment\<close> does not ask for the slot to be unbound: with Monday
  9:00 bound to (Math, Teacher_A, Room_101), the triple (Physics, Teacher_B, Room_102),
  whose teacher is capable and whose teacher and classroom both differ, is accepted for
  Monday 9:00. What keeps a bound slot from being bound again is that \<open>backtrack\<close> takes
  its slot from \<open>get_unassigned_variables\<close>, which holds no bound slot.
\<close>

theorem legal_on_bound_slot:
  "map_of (assignment one_bound) (''Monday'', ''9:00-10:00'') =
     Some (''Math'', ''Teacher_A'', ''Room_101'')
   \<and> capable one_bound ''Teacher_B'' ''Physics''
   \<and> is_valid_assignment one_bound ''Monday'' ''9:00-10:00'' ''Physics'' ''Teacher_B'' ''Room_102''
       = Inr True
   \<and> set (get_unassigned_variables self) \<inter> fst ` set (assignment self) = {}"
proof -
  have "set (get_unassigned_variables self) \<inter> fst ` set (assignment self) = {}"
    by (auto simp: get_unassigned_variables_def)
  moreover have "map_of (assignment one_bound) (''Monday'', ''9:00-10:00'') =
     Some (''Math'', ''Teacher_A'', ''Room_101'')"
    by (simp add: one_bound_fields)
  moreover have "capable one_bound ''Teacher_B'' ''Physics''"
    by (simp add: capable_def one_bound_def init_def)
  moreover have "is_valid_assignment one_bound ''Monday'' ''9:00-10:00'' ''Physics'' ''Teacher_B'' ''Room_102''
       = Inr True"
    by (simp add: is_valid_assignment_def dict_getitem_def one_bound_def init_def)
  ultimately show ?thesis by blast
qed

subsection \<open>Binding a bound slot, unbinding a free one\<close>

text \<open>
  Claim C9, as amended. \<open>del self.assignment[slot]\<close> raises \<open>KeyError\<close> when the slot is
  unbound and deletes the binding otherwise; inside the loop of \<open>backtrack\<close> that
  \<open>KeyError\<close> is not caught, it ends the call. \<open>self.assignment[slot] = value\<close> performs
  no check: after it the slot is bound to the new value, and on a slot that was bound
  the keys of the dictionary are as before, so the old binding has been replaced.
\<close>

theorem unbind_raises_bind_replaces:
  "(map_of a slot = None \<longrightarrow> dict_delitem a slot = Inl KeyError)
   \<and> (map_of a slot \<noteq> None \<longrightarrow> dict_delitem a slot = Inr (AList.delete slot a))
   \<and> (rec (self\<lparr>assignment := dict_setitem (assignment self) (day, time_slot)
                                (subject, teacher, classroom)\<rparr>) g = Some (Inr (False, self', g'))
        \<and> map_of (assignment self') (day, time_slot) = None \<longrightarrow>
      for_value rec day time_slot ((subject, teacher, classroom) # vals) self g
        = Some (Inl KeyError))
   \<and> map_of (dict_setitem a slot v) = (map_of a)(slot \<mapsto> v)
   \<and> (map_of a slot \<noteq> None \<longrightarrow> map fst (dict_setitem a slot v) = map fst a)"
proof -
  have "map_of a slot \<noteq> None \<Longrightarrow> map fst (dict_setitem a slot v) = map fst a"
    by (auto simp: dict_setitem_def update_keys map_of_eq_None_iff)
  then show ?thesis
    by (auto simp: dict_delitem_def dict_setitem_def update_conv')
qed

theorem unbind_raises_bind_replaces_witness:
  "map_of (assignment one_bound) (''Tuesday'', ''9:00-10:00'') = None
   \<and> dict_delitem (assignment one_bound) (''Tuesday'', ''9:00-10:00'') = Inl KeyError
   \<and> map_of (assignment one_bound) (''Monday'', ''9:00-10:00'') \<noteq> None
   \<and> dict_delitem (assignment one_bound) (''Monday'', ''9:00-10:00'') = Inr []
   \<and> map fst (dict_setitem (assignment one_bound) (''Monday'', ''9:00-10:00'')
                (''Physics'', ''Teacher_B'', ''Room_102''))
       = map fst (assignment one_bound)
   \<and> for_value (\<lambda>s h. Some (Inr (False, s\<lparr>assignment := []\<rparr>, h)))
        ''Monday'' ''9:00-10:00'' [(''Math'', ''Teacher_A'', ''Room_101'')] init ()
       = Some (Inl KeyError)"
proof -
  have free: "map_of (assignment one_bound) (''Tuesday'', ''9:00-10:00'') = None"
    by (simp add: one_bound_fields)
  have bound: "map_of (assignment one_bound) (''Monday'', ''9:00-10:00'') \<noteq> None"
    by (simp add: one_bound_fields)
  have del: "AList.delete (''Monday'', ''9:00-10:00'') (assignment one_bound) = []"
    by (simp add: one_bound_fields)
  note a = unbind_raises_bind_replaces
    [where a = "assignment one_bound" and slot = "(''Tuesday'', ''9:00-10:00'')"]
  note b = unbind_raises_bind_replaces
    [where a = "assignment one_bound" and slot = "(''Monday'', ''9:00-10:00'')"
       and v = "(''Physics'', ''Teacher_B'', ''Room_102'')"
       and rec = "\<lambda>s h. Some (Inr (False, s\<lparr>assignment := []\<rparr>, h))"
       and self = init and day = "''Monday''" and time_slot = "''9:00-10:00''"
       and subject = "''Math''" and teacher = "''Teacher_A''" and classroom = "''Room_101''"
       and g = "()" and vals = "[]" and self' = "init\<lparr>assignment := []\<rparr>" and g' = "()"]
  have k1: "dict_delitem (assignment one_bound) (''Tuesday'', ''9:00-10:00'') = Inl KeyError"
    by (rule a [THEN conjunct1, THEN mp, OF free])
  have k2: "dict_delitem (assignment one_bound) (''Monday'', ''9:00-10:00'') = Inr []"
    using b [THEN conjunct2, THEN conjunct1, THEN mp, OF bound] del by simp
  have k3: "for_value (\<lambda>s h. Some (Inr (False, s\<lparr>assignment := []\<rparr>, h)))
        ''Monday'' ''9:00-10:00'' [(''Math'', ''Teacher_A'', ''Room_101'')] init ()
       = Some (Inl KeyError)"
    by (rule b [THEN conjunct2, THEN conjunct2, THEN conjunct1, THEN mp]) simp
  have k4: "map fst (dict_setitem (assignment one_bound) (''Monday'', ''9:00-10:00'')
                (''Physics'', ''Teacher_B'', ''Room_102''))
       = map fst (assignment one_bound)"
    by (rule b [THEN conjunct2, THEN conjunct2, THEN conjunct2, THEN conjunct2, THEN mp,
          OF bound])
  show ?thesis
    using free bound k1 k2 k3 k4 by blast
qed

text \<open>
  Claim C9 as stated fails for the binding half: on the bound slot Monday 9:00 the
  assignment statement returns normally, with the old binding replaced.
\<close>

theorem bind_on_bound_slot_counterexample:
  "map_of (assignment one_bound) (''Monday'', ''9:00-10:00'') =
     Some (''Math'', ''Teacher_A'', ''Room_101'')
   \<and> dict_setitem (assignment one_bound) (''Monday'', ''9:00-10:00'')
        (''Physics'', ''Teacher_B'', ''Room_102'')
       = [((''Monday'', ''9:00-10:00''), (''Physics'', ''Teacher_B'', ''Room_102''))]"
  by (simp add: one_bound_fields dict_setitem_def)

subsection \<open>The invariant of the search\<close>

lemma capable_assignment [simp]:
  "capable (s\<lparr>assignment := a\<rparr>) = capable s"
  by (simp add: capable_def fun_eq_iff)

lemma all_slots_assignment [simp]:
  "all_slots (s\<lparr>assignment := a\<rparr>) = all_slots s"
  by (simp add: all_slots_def)

lemma teachers_known_assignment [simp]:
  "teachers_known (s\<lparr>assignment := a\<rparr>) = teachers_known s"
  by (simp add: teachers_known_def)

lemma count_append:
  "get_subject_count (s\<lparr>assignment := a @ [(slot, subject, teacher, classroom)]\<rparr>) subject' =
     get_subject_count (s\<lparr>assignment := a\<rparr>) subject' + (if subject = subject' then 1 else 0)"
  by (simp add: get_subject_count_eq)

lemma count_delete:
  "get_subject_count (s\<lparr>assignment := AList.delete slot a\<rparr>) subject
     \<le> get_subject_count (s\<lparr>assignment := a\<rparr>) subject"
proof -
  have "length (filter (\<lambda>b. fst (snd b) = subject) (filter Q a))
          \<le> length (filter (\<lambda>b. fst (snd b) = subject) a)" for Q
    by (induction a) auto
  then show ?thesis
    by (simp add: get_subject_count_eq AList.delete_eq)
qed

lemma for_teacher_Inr_known:
  "for_teacher self day time_slot subject ts vals = Inr r
     \<Longrightarrow> \<forall>t \<in> set ts. map_of (teacher_subjects self) t \<noteq> None"
  by (induction ts arbitrary: vals)
     (auto simp: dict_getitem_def split: option.splits sum.splits if_splits)

lemma get_domain_values_Inr:
  assumes "get_domain_values self day time_slot = Inr vals"
  shows "vals = [] \<or> teachers_known self"
proof (cases "needed_subjects self")
  case Nil
  with assms show ?thesis by (simp add: get_domain_values_def)
next
  case (Cons subject ss)
  with assms obtain r where "for_teacher self day time_slot subject (teachers self) [] = Inr r"
    by (auto simp: get_domain_values_def split: sum.splits)
  then show ?thesis
    unfolding teachers_known_def by (blast dest: for_teacher_Inr_known)
qed

lemma candidate_properties:
  assumes "get_domain_values self day time_slot = Inr vals"
    and "(subject, teacher, classroom) \<in> set vals"
  shows "\<exists>required. (subject, required) \<in> set (subject_periods self)
           \<and> get_subject_count self subject < required"
    and "teacher \<in> set (teachers self)" and "classroom \<in> set (classrooms self)"
    and "capable self teacher subject"
    and "is_valid_assignment self day time_slot subject teacher classroom = Inr True"
proof -
  from assms get_domain_values_Inr have known: "teachers_known self" by fastforce
  note iff = get_domain_values_set [OF known assms(1), of subject teacher classroom]
  from iff assms(2) show "\<exists>required. (subject, required) \<in> set (subject_periods self)
           \<and> get_subject_count self subject < required"
    by (simp add: needed_subjects_iff)
  from iff assms(2) show "teacher \<in> set (teachers self)" by simp
  from iff assms(2) show "classroom \<in> set (classrooms self)" by simp
  from iff assms(2) show "capable self teacher subject" by simp
  from iff assms(2) show
    "is_valid_assignment self day time_slot subject teacher classroom = Inr True" by simp
qed

lemma consistent_start: "consistent (self\<lparr>assignment := []\<rparr>)"
  by (simp add: consistent_def get_subject_count_def)

lemma consistent_bind:
  assumes con: "consistent s"
    and keys: "distinct (map fst (subject_periods s))"
    and un: "get_unassigned_variables s = (day, time_slot) # rest"
    and dv: "get_domain_values s day time_slot = Inr domain_values"
    and v: "v \<in> set domain_values"
  shows "consistent (s\<lparr>assignment := dict_setitem (assignment s) (day, time_slot) v\<rparr>)"
proof -
  obtain subject teacher classroom where v_eq: "v = (subject, teacher, classroom)"
    by (cases v) auto
  note cand = candidate_properties [OF dv v [unfolded v_eq]]
  from cand(1) obtain required where
    req: "(subject, required) \<in> set (subject_periods s)"
    and below: "get_subject_count s subject < required"
    by blast
  have fresh: "(day, time_slot) \<notin> fst ` set (assignment s)"
    and slot: "(day, time_slot) \<in> set (all_slots s)"
    using unassigned_head [OF un] by simp_all
  have upd: "dict_setitem (assignment s) (day, time_slot) v =
               assignment s @ [((day, time_slot), subject, teacher, classroom)]"
    by (simp add: dict_setitem_def update_fresh [OF fresh] v_eq)
  have quota: "get_subject_count
                 (s\<lparr>assignment := assignment s @ [((day, time_slot), subject, teacher, classroom)]\<rparr>)
                 subject' \<le> required'"
    if in_sp: "(subject', required') \<in> set (subject_periods s)" and nonneg: "0 \<le> required'"
    for subject' required'
  proof (cases "subject' = subject")
    case True
    with in_sp req keys have "required' = required"
      by (metis eq_key_imp_eq_value)
    with True below show ?thesis by (simp add: count_append)
  next
    case False
    from con in_sp nonneg have "get_subject_count s subject' \<le> required'"
      by (auto simp: consistent_def)
    with False show ?thesis by (simp add: count_append)
  qed
  have subj: "subject \<in> fst ` set (subject_periods s)"
    using req by force
  from con have d: "distinct (map fst (assignment s))"
    and sub: "fst ` set (assignment s) \<subseteq> set (all_slots s)"
    and ok: "\<forall>(slot, subject, teacher, classroom) \<in> set (assignment s).
            teacher \<in> set (teachers s) \<and> classroom \<in> set (classrooms s)
            \<and> capable s teacher subject
            \<and> subject \<in> fst ` set (subject_periods s)"
    by (simp_all add: consistent_def)
  show ?thesis
    unfolding upd consistent_def
    using d sub ok fresh slot cand(2-4) subj quota by auto
qed

lemma consistent_unbind:
  assumes con: "consistent s" and del: "dict_delitem (assignment s) slot = Inr a"
  shows "consistent (s\<lparr>assignment := a\<rparr>)"
proof -
  from del have a: "a = AList.delete slot (assignment s)"
    by (auto simp: dict_delitem_def split: option.splits)
  have sub: "set a \<subseteq> set (assignment s)"
    by (auto simp: a AList.delete_eq)
  have cnt: "get_subject_count (s\<lparr>assignment := a\<rparr>) subject \<le> get_subject_count s subject"
    for subject
    using count_delete [where s = s and slot = slot and a = "assignment s" and subject = subject] by (simp add: a)
  from con have d: "distinct (map fst (assignment s))"
    and ks: "fst ` set (assignment s) \<subseteq> set (all_slots s)"
    and ok: "\<forall>(slot, subject, teacher, classroom) \<in> set (assignment s).
            teacher \<in> set (teachers s) \<and> classroom \<in> set (classrooms s)
            \<and> capable s teacher subject
            \<and> subject \<in> fst ` set (subject_periods s)"
    and q: "\<forall>(subject, required) \<in> set (subject_periods s).
            0 \<le> required \<longrightarrow> get_subject_count s subject \<le> required"
    by (simp_all add: consistent_def)
  have "distinct (map fst a)"
    using d by (simp add: a distinct_delete)
  moreover have "fst ` set a \<subseteq> set (all_slots s)"
    using ks sub by blast
  moreover have "\<forall>(slot, subject, teacher, classroom) \<in> set a.
            teacher \<in> set (teachers s) \<and> classroom \<in> set (classrooms s)
            \<and> capable s teacher subject
            \<and> subject \<in> fst ` set (subject_periods s)"
    using ok sub by blast
  moreover have "\<forall>(subject, required) \<in> set (subject_periods s).
            0 \<le> required \<longrightarrow> get_subject_count (s\<lparr>assignment := a\<rparr>) subject \<le> required"
    using q cnt by (fastforce intro: order_trans)
  ultimately show ?thesis
    by (simp add: consistent_def)
qed

lemma visited_catalogue_ex:
  "visited self s \<Longrightarrow> \<exists>a. s = self\<lparr>assignment := a\<rparr>"
  by (induction rule: visited.induct) auto

lemma visited_catalogue:
  "visited self s \<Longrightarrow> s = self\<lparr>assignment := assignment s\<rparr>"
  by (drule visited_catalogue_ex) auto

lemma visited_subject_periods:
  assumes "visited self s"
  shows "subject_periods s = subject_periods self"
proof -
  have "subject_periods s = subject_periods (self\<lparr>assignment := assignment s\<rparr>)"
    using visited_catalogue [OF assms] by simp
  then show ?thesis by simp
qed

lemma visited_consistent:
  assumes "visited self s" and "distinct (map fst (subject_periods self))"
  shows "consistent s"
  using assms
proof (induction rule: visited.induct)
  case start
  show ?case by (rule consistent_start)
next
  case (bind s day time_slot rest domain_values v)
  then show ?case
    by (intro consistent_bind) (simp_all add: visited_subject_periods)
next
  case (unbind s slot a)
  then show ?case
    by (intro consistent_unbind) simp_all
qed

subsection \<open>What a call of \<open>backtrack\<close> returns\<close>

lemma is_shuffle_set: "is_shuffle shuffle \<Longrightarrow> shuffle g vals = (shuffled, g') \<Longrightarrow> set shuffled = set vals"
  unfolding is_shuffle_def by (metis fst_conv set_mset_mset)

lemma for_value_visited:
  assumes rec: "\<And>s h b s' h'. visited self0 s \<Longrightarrow> rec s h = Some (Inr (b, s', h'))
                  \<Longrightarrow> visited self0 s' \<and> (b \<longrightarrow> is_complete s') \<and> (\<not> b \<longrightarrow> s' = s)"
    and vis: "visited self0 self"
    and nc: "\<not> is_complete self"
    and un: "get_unassigned_variables self = (day, time_slot) # rest"
    and dv: "get_domain_values self day time_slot = Inr domain_values"
    and sub: "set vals \<subseteq> set domain_values"
    and run: "for_value rec day time_slot vals self g = Some (Inr (found, self', g'))"
  shows "visited self0 self' \<and> (found \<longrightarrow> is_complete self') \<and> (\<not> found \<longrightarrow> self' = self)"
  using sub run
proof (induction vals arbitrary: g)
  case Nil
  with vis show ?case by simp
next
  case (Cons v vals)
  obtain subject teacher classroom where v: "v = (subject, teacher, classroom)"
    by (cases v) auto
  let ?s1 = "self\<lparr>assignment := dict_setitem (assignment self) (day, time_slot) v\<rparr>"
  have v_in: "v \<in> set domain_values" using Cons.prems(1) by simp
  have vis1: "visited self0 ?s1"
    by (rule visited.bind [OF vis nc un dv v_in])
  from Cons.prems(2) obtain b s2 g2 where r: "rec ?s1 g = Some (Inr (b, s2, g2))"
    by (auto simp: v split: option.splits sum.splits)
  note r_ok = rec [OF vis1 r]
  show ?case
  proof (cases b)
    case True
    with Cons.prems(2) r have "found" "self' = s2"
      by (simp_all add: v)
    with r_ok True show ?thesis by simp
  next
    case False
    with r_ok have s2: "s2 = ?s1" by simp
    have fresh: "(day, time_slot) \<notin> fst ` set (assignment self)"
      using unassigned_head(1) [OF un] .
    have del: "dict_delitem (assignment s2) (day, time_slot) = Inr (assignment self)"
      by (simp add: s2 setitem_delitem [OF fresh])
    have vs: "set vals \<subseteq> set domain_values"
      using Cons.prems(1) by simp
    have "for_value rec day time_slot vals self g2 = Some (Inr (found, self', g'))"
      using Cons.prems(2) r False del by (simp add: v s2)
    then show ?thesis by (rule Cons.IH [OF vs])
  qed
qed

lemma backtrack_visited:
  assumes sh: "is_shuffle shuffle"
  shows "visited self0 self \<Longrightarrow> backtrack fuel shuffle self g = Some (Inr (found, self', g'))
     \<Longrightarrow> visited self0 self' \<and> (found \<longrightarrow> is_complete self') \<and> (\<not> found \<longrightarrow> self' = self)"
proof (induction fuel arbitrary: self g found self' g')
  case 0
  then show ?case by simp
next
  case (Suc fuel)
  show ?case
  proof (cases "is_complete self")
    case True
    with Suc.prems show ?thesis by auto
  next
    case nc: False
    show ?thesis
    proof (cases "get_unassigned_variables self")
      case Nil
      with Suc.prems nc show ?thesis by auto
    next
      case (Cons slot rest)
      obtain day time_slot where slot: "slot = (day, time_slot)" by (cases slot) auto
      from Suc.prems(2) nc Cons slot obtain dv where
        dv: "get_domain_values self day time_slot = Inr dv"
        by (auto split: sum.splits)
      obtain shuffled g1 where s: "shuffle g dv = (shuffled, g1)"
        by (cases "shuffle g dv") auto
      have run: "for_value (\<lambda>s h. backtrack fuel shuffle s h) day time_slot shuffled self g1
                   = Some (Inr (found, self', g'))"
        using Suc.prems(2) nc Cons slot dv s by simp
      have sub: "set shuffled \<subseteq> set dv"
        using is_shuffle_set [OF sh s] by simp
      show ?thesis
        by (rule for_value_visited [OF _ Suc.prems(1) nc Cons [unfolded slot] dv sub run])
           (rule Suc.IH)
    qed
  qed
qed

subsection \<open>The bindings of every visited object\<close>

lemma is_shuffle_keep_order: "is_shuffle keep_order"
  by (simp add: is_shuffle_def keep_order_def)

lemma init_keys: "distinct (map fst (subject_periods init))"
  by (simp add: init_def)

lemma init_known: "teachers_known init"
  by (simp add: teachers_known_def init_def)

lemma visited_one_bound: "visited init one_bound"
proof -
  have start: "visited init (init\<lparr>assignment := []\<rparr>)"
    by (rule visited.start)
  have e: "init\<lparr>assignment := []\<rparr> = init"
    by (simp add: init_def)
  have nc: "\<not> is_complete init"
    by (simp add: is_complete_def get_subject_count_def init_def)
  obtain rest where un: "get_unassigned_variables init = (''Monday'', ''9:00-10:00'') # rest"
    by (simp add: get_unassigned_variables_def all_slots_def init_def)
  obtain dv where dv: "get_domain_values init ''Monday'' ''9:00-10:00'' = Inr dv"
    using get_domain_values_eq [OF init_known] by blast
  have v: "(''Math'', ''Teacher_A'', ''Room_101'') \<in> set dv"
    unfolding get_domain_values_set [OF init_known dv]
    by (simp add: needed_subjects_def capable_def is_valid_assignment_def dict_getitem_def
        get_subject_count_def init_def)
  have "visited init (init\<lparr>assignment := dict_setitem (assignment init)
          (''Monday'', ''9:00-10:00'') (''Math'', ''Teacher_A'', ''Room_101'')\<rparr>)"
    by (rule visited.bind [OF start [unfolded e] nc un dv v])
  then show ?thesis
    by (simp add: one_bound_def dict_setitem_def init_def)
qed

lemma solve_init: "solve 26 keep_order init () = Some (Inr (True, exact_quota, ()))"
  unfolding solve_def by code_simp

text \<open>
  Claim C2. Let the keys of \<open>subject_periods\<close> be distinct, as the keys of a dictionary
  are. In every object a solve passes through, each binding has a teacher capable of the
  bound subject; a slot has one binding only, so no other binding of the slot shares the
  teacher or the classroom; and no subject with a quota of zero or more is bound more
  often than its quota. The quota bound comes from the candidates: every value that
  \<open>get_domain_values\<close> returns has a subject whose count is below its quota. A call of
  \<open>backtrack\<close> on such an object returns such an object again.
\<close>

theorem visited_bindings_ok:
  assumes "visited self s" and "distinct (map fst (subject_periods self))"
  shows "(\<forall>((day, time_slot), subject, teacher, classroom) \<in> set (assignment s).
            capable s teacher subject
            \<and> (\<forall>b \<in> set (assignment s).
                  fst b = (day, time_slot) \<longrightarrow> b = ((day, time_slot), subject, teacher, classroom)))
       \<and> distinct (map fst (assignment s))
       \<and> (\<forall>(subject, required) \<in> set (subject_periods s).
            0 \<le> required \<longrightarrow> get_subject_count s subject \<le> required)
       \<and> (\<forall>day time_slot vals.
            get_domain_values s day time_slot = Inr vals \<longrightarrow>
            (\<forall>(subject, teacher, classroom) \<in> set vals.
               \<exists>required. (subject, required) \<in> set (subject_periods s)
                 \<and> get_subject_count s subject < required))
       \<and> (\<forall>fuel shuffle g found s' g'.
            is_shuffle shuffle \<and> backtrack fuel shuffle s g = Some (Inr (found, s', g'))
            \<longrightarrow> visited self s')"
proof -
  have con: "consistent s"
    by (rule visited_consistent [OF assms])
  then have d: "distinct (map fst (assignment s))"
    by (simp add: consistent_def)
  have once: "b = (slot, v)" if "(slot, v) \<in> set (assignment s)" "b \<in> set (assignment s)"
    "fst b = slot" for b slot v
    using that d by (metis eq_key_imp_eq_value prod.collapse)
  have cap: "capable s teacher subject"
    if "(slot, subject, teacher, classroom) \<in> set (assignment s)" for slot subject teacher classroom
    using con that by (auto simp: consistent_def)
  have c1: "\<forall>((day, time_slot), subject, teacher, classroom) \<in> set (assignment s).
            capable s teacher subject
            \<and> (\<forall>b \<in> set (assignment s).
                  fst b = (day, time_slot) \<longrightarrow> b = ((day, time_slot), subject, teacher, classroom))"
    using once cap by blast
  have c3: "\<forall>(subject, required) \<in> set (subject_periods s).
            0 \<le> required \<longrightarrow> get_subject_count s subject \<le> required"
    using con by (simp add: consistent_def)
  have offered: "\<forall>(subject, teacher, classroom) \<in> set vals.
               \<exists>required. (subject, required) \<in> set (subject_periods s)
                 \<and> get_subject_count s subject < required"
    if "get_domain_values s day time_slot = Inr vals" for day time_slot vals
    using candidate_properties(1) [OF that] by blast
  then have c4: "\<forall>day time_slot vals.
            get_domain_values s day time_slot = Inr vals \<longrightarrow>
            (\<forall>(subject, teacher, classroom) \<in> set vals.
               \<exists>required. (subject, required) \<in> set (subject_periods s)
                 \<and> get_subject_count s subject < required)"
    by (intro allI impI)
  have c5: "\<forall>fuel shuffle g found s' g'.
            is_shuffle shuffle \<and> backtrack fuel shuffle s g = Some (Inr (found, s', g'))
            \<longrightarrow> visited self s'"
  proof (intro allI impI, elim conjE)
    fix fuel shuffle g found s' g'
    assume "is_shuffle shuffle" "backtrack fuel shuffle s g = Some (Inr (found, s', g'))"
    from backtrack_visited [OF this(1) assms(1) this(2)] show "visited self s'" by simp
  qed
  show ?thesis
    by (rule conjI [OF c1 conjI [OF d conjI [OF c3 conjI [OF c4 c5]]]])
qed

theorem visited_bindings_ok_witness:
  "visited init one_bound \<and> distinct (map fst (subject_periods init))
   \<and> capable one_bound ''Teacher_A'' ''Math''
   \<and> distinct (map fst (assignment one_bound))
   \<and> get_subject_count one_bound ''Math'' \<le> 3"
proof -
  note t = visited_bindings_ok [OF visited_one_bound init_keys]
  note t1 = t [THEN conjunct1]
  note t2 = t [THEN conjunct2, THEN conjunct1]
  note t3 = t [THEN conjunct2, THEN conjunct2, THEN conjunct1]
  have "((''Monday'', ''9:00-10:00''), ''Math'', ''Teacher_A'', ''Room_101'')
          \<in> set (assignment one_bound)"
    by (simp add: one_bound_fields)
  with t1 have cap: "capable one_bound ''Teacher_A'' ''Math''"
    by blast
  have "(''Math'', 3) \<in> set (subject_periods one_bound)"
    by (simp add: one_bound_fields)
  with t3 have q: "get_subject_count one_bound ''Math'' \<le> 3"
    by fastforce
  show ?thesis
    using visited_one_bound init_keys cap t2 q by blast
qed

subsection \<open>Exact quotas on success\<close>

text \<open>
  Claim C1. Let the generator return permutations and the keys of \<open>subject_periods\<close> be
  distinct. When \<open>solve\<close> returns \<open>True\<close>, every subject with a quota of zero or more is
  bound in the returned assignment exactly as often as its quota asks, and the catalogue
  of the returned object is the one \<open>solve\<close> was called on.
\<close>

theorem solve_success_exact_quota:
  assumes "is_shuffle shuffle" and "distinct (map fst (subject_periods self))"
    and "solve fuel shuffle self g = Some (Inr (True, self', g'))"
  shows "(\<forall>(subject, required) \<in> set (subject_periods self).
            0 \<le> required \<longrightarrow> get_subject_count self' subject = required)
         \<and> self' = self\<lparr>assignment := assignment self'\<rparr>"
proof -
  have start: "visited self (self\<lparr>assignment := []\<rparr>)"
    by (rule visited.start)
  from assms(3) have run:
    "backtrack fuel shuffle (self\<lparr>assignment := []\<rparr>) g = Some (Inr (True, self', g'))"
    by (simp add: solve_def)
  from backtrack_visited [OF assms(1) start run]
  have vis: "visited self self'" and com: "is_complete self'"
    by simp_all
  have sp: "subject_periods self' = subject_periods self"
    by (rule visited_subject_periods [OF vis])
  have con: "consistent self'"
    by (rule visited_consistent [OF vis assms(2)])
  have "get_subject_count self' subject = required"
    if "(subject, required) \<in> set (subject_periods self)" "0 \<le> required"
    for subject required
  proof -
    from con that sp have "get_subject_count self' subject \<le> required"
      by (auto simp: consistent_def)
    moreover from com that sp have "required \<le> get_subject_count self' subject"
      by (auto simp: is_complete_iff)
    ultimately show ?thesis by simp
  qed
  then show ?thesis
    using visited_catalogue [OF vis] by blast
qed

theorem solve_success_exact_quota_witness:
  "is_shuffle keep_order \<and> distinct (map fst (subject_periods init))
   \<and> solve 26 keep_order init () = Some (Inr (True, exact_quota, ()))
   \<and> get_subject_count exact_quota ''Math'' = 3
   \<and> get_subject_count exact_quota ''Physics'' = 2
   \<and> get_subject_count exact_quota ''Chemistry'' = 2
   \<and> get_subject_count exact_quota ''English'' = 2
   \<and> get_subject_count exact_quota ''History'' = 1"
proof -
  note t = solve_success_exact_quota [OF is_shuffle_keep_order init_keys solve_init,
      THEN conjunct1]
  have sp: "subject_periods init =
     [(''Math'', 3), (''Physics'', 2), (''Chemistry'', 2), (''English'', 2), (''History'', 1)]"
    by (simp add: init_def)
  from t have "get_subject_count exact_quota ''Math'' = 3"
    "get_subject_count exact_quota ''Physics'' = 2"
    "get_subject_count exact_quota ''Chemistry'' = 2"
    "get_subject_count exact_quota ''English'' = 2"
    "get_subject_count exact_quota ''History'' = 1"
    unfolding sp by simp_all
  then show ?thesis
    using is_shuffle_keep_order init_keys solve_init by blast
qed

subsection \<open>Termination\<close>

lemma unassigned_bind:
  "get_unassigned_variables (self\<lparr>assignment := dict_setitem (assignment self) slot v\<rparr>) =
     filter (\<lambda>x. x \<noteq> slot) (get_unassigned_variables self)"
  by (auto simp: get_unassigned_variables_def dict_setitem_def dom_update intro: filter_cong)

lemma unassigned_bind_less:
  assumes "get_unassigned_variables self = slot # rest"
  shows "length (get_unassigned_variables
                   (self\<lparr>assignment := dict_setitem (assignment self) slot v\<rparr>))
           < length (get_unassigned_variables self)"
proof -
  have "slot \<in> set (get_unassigned_variables self)"
    using assms by simp
  then show ?thesis
    unfolding unassigned_bind by (rule length_filter_less) simp
qed

lemma unassigned_bind_subset:
  assumes "get_unassigned_variables self = slot # rest"
  shows "set (get_unassigned_variables
                (self\<lparr>assignment := dict_setitem (assignment self) slot v\<rparr>))
           \<subset> set (get_unassigned_variables self)"
proof -
  have "slot \<in> set (get_unassigned_variables self)"
    using assms by simp
  then show ?thesis
    unfolding unassigned_bind by auto
qed

lemma for_value_mono:
  assumes "\<And>s h r. rec s h = Some r \<Longrightarrow> rec' s h = Some r"
    and "for_value rec day time_slot vals self g = Some r"
  shows "for_value rec' day time_slot vals self g = Some r"
  using assms(2)
proof (induction vals arbitrary: self g)
  case Nil
  then show ?case by simp
next
  case (Cons v vals)
  obtain subject teacher classroom where v: "v = (subject, teacher, classroom)"
    by (cases v) auto
  let ?s1 = "self\<lparr>assignment := dict_setitem (assignment self) (day, time_slot) v\<rparr>"
  from Cons.prems obtain r1 where r1: "rec ?s1 g = Some r1"
    by (auto simp: v split: option.splits)
  then have r1': "rec' ?s1 g = Some r1"
    by (rule assms(1))
  show ?case
    using Cons.prems r1 r1' Cons.IH
    by (auto simp: v split: sum.splits if_splits)
qed

lemma backtrack_Suc:
  "backtrack fuel shuffle self g = Some r \<Longrightarrow> backtrack (Suc fuel) shuffle self g = Some r"
proof (induction fuel arbitrary: self g r)
  case 0
  then show ?case by simp
next
  case (Suc fuel)
  have step: "for_value (\<lambda>s h. backtrack (Suc fuel) shuffle s h) day time_slot vals self h = Some r"
    if "for_value (\<lambda>s h. backtrack fuel shuffle s h) day time_slot vals self h = Some r"
    for day time_slot vals h
    by (rule for_value_mono [OF _ that]) (rule Suc.IH)
  from Suc.prems show ?case
    by (subst backtrack.simps, subst (asm) backtrack.simps)
       (auto split: list.splits sum.splits prod.splits intro: step)
qed

lemma backtrack_more_fuel:
  assumes "backtrack fuel shuffle self g = Some r"
  shows "fuel \<le> m \<Longrightarrow> backtrack m shuffle self g = Some r"
proof (induction m)
  case 0
  with assms show ?case by simp
next
  case (Suc m)
  show ?case
  proof (cases "fuel \<le> m")
    case True
    then have "backtrack m shuffle self g = Some r" by (rule Suc.IH)
    then show ?thesis by (rule backtrack_Suc)
  next
    case False
    with Suc.prems have "fuel = Suc m" by simp
    with assms show ?thesis by (simp only:)
  qed
qed

lemma for_value_returns:
  assumes rec: "\<And>s h. length (get_unassigned_variables s) < n \<Longrightarrow>
                  \<exists>r. rec s h = Some r \<and> (teachers_known s \<longrightarrow> (\<exists>x. r = Inr x))"
    and frame: "\<And>s h s' h'. rec s h = Some (Inr (False, s', h')) \<Longrightarrow> s' = s"
    and un: "get_unassigned_variables self = (day, time_slot) # rest"
    and le: "length (get_unassigned_variables self) \<le> n"
  shows "\<exists>r. for_value rec day time_slot vals self g = Some r
           \<and> (teachers_known self \<longrightarrow> (\<exists>x. r = Inr x))"
proof (induction vals arbitrary: g)
  case Nil
  show ?case by auto
next
  case (Cons v vals)
  obtain subject teacher classroom where v: "v = (subject, teacher, classroom)"
    by (cases v) auto
  let ?s1 = "self\<lparr>assignment := dict_setitem (assignment self) (day, time_slot) v\<rparr>"
  have "length (get_unassigned_variables ?s1) < n"
    using unassigned_bind_less [OF un, of v] le by simp
  from rec [OF this, of g] obtain r1 where r1: "rec ?s1 g = Some r1"
    and inr: "teachers_known self \<longrightarrow> (\<exists>x. r1 = Inr x)"
    by auto
  show ?case
  proof (cases r1)
    case (Inl e)
    with r1 inr show ?thesis by (auto simp: v)
  next
    case (Inr x)
    obtain found s2 g2 where x: "x = (found, s2, g2)" by (cases x) auto
    show ?thesis
    proof (cases found)
      case True
      with r1 Inr x show ?thesis by (auto simp: v)
    next
      case False
      with r1 Inr x have "rec ?s1 g = Some (Inr (False, s2, g2))" by simp
      then have s2: "s2 = ?s1" by (rule frame)
      have fresh: "(day, time_slot) \<notin> fst ` set (assignment self)"
        using unassigned_head(1) [OF un] .
      have del: "dict_delitem (assignment s2) (day, time_slot) = Inr (assignment self)"
        by (simp add: s2 setitem_delitem [OF fresh])
      have "for_value rec day time_slot (v # vals) self g =
              for_value rec day time_slot vals self g2"
        using r1 Inr x False del by (simp add: v s2)
      with Cons.IH [of g2] show ?thesis by simp
    qed
  qed
qed

lemma backtrack_returns:
  "length (get_unassigned_variables self) < fuel \<Longrightarrow>
     \<exists>r. backtrack fuel shuffle self g = Some r \<and> (teachers_known self \<longrightarrow> (\<exists>x. r = Inr x))"
proof (induction fuel arbitrary: self g)
  case 0
  then show ?case by simp
next
  case (Suc fuel)
  show ?case
  proof (cases "is_complete self")
    case True
    then show ?thesis by auto
  next
    case nc: False
    show ?thesis
    proof (cases "get_unassigned_variables self")
      case Nil
      with nc show ?thesis by auto
    next
      case (Cons slot rest)
      obtain day time_slot where slot: "slot = (day, time_slot)" by (cases slot) auto
      note un = Cons [unfolded slot]
      show ?thesis
      proof (cases "get_domain_values self day time_slot")
        case (Inl e)
        have "\<not> teachers_known self"
          using Inl get_domain_values_eq [of self day time_slot] by auto
        with nc un Inl show ?thesis by auto
      next
        case (Inr dv)
        obtain shuffled g1 where s: "shuffle g dv = (shuffled, g1)"
          by (cases "shuffle g dv") auto
        have le: "length (get_unassigned_variables self) \<le> fuel"
          using Suc.prems by simp
        have "\<exists>r. for_value (\<lambda>s h. backtrack fuel shuffle s h) day time_slot shuffled self g1
                     = Some r \<and> (teachers_known self \<longrightarrow> (\<exists>x. r = Inr x))"
          by (rule for_value_returns [OF Suc.IH backtrack_False_restores un le])
        with nc un Inr s show ?thesis by simp
      qed
    qed
  qed
qed

text \<open>
  Claim C3. A call of \<open>backtrack\<close> returns: with more fuel than the object has
  unassigned slots the call has a result, and every larger amount of fuel gives the same
  result. When every teacher of \<open>teachers\<close> has an entry in \<open>teacher_subjects\<close> the
  result is a normal return, \<open>True\<close> or \<open>False\<close>, and no exception. Binding the first
  unassigned slot makes the set of unassigned slots strictly smaller, which is why the
  recursion ends.
\<close>

theorem backtrack_terminates:
  assumes "length (get_unassigned_variables self) < fuel"
  shows "(\<exists>r. \<forall>m \<ge> fuel. backtrack m shuffle self g = Some r)
         \<and> (teachers_known self \<longrightarrow>
              (\<exists>found self' g'. backtrack fuel shuffle self g = Some (Inr (found, self', g'))))
         \<and> (\<forall>day time_slot rest v.
              get_unassigned_variables self = (day, time_slot) # rest \<longrightarrow>
              set (get_unassigned_variables
                     (self\<lparr>assignment := dict_setitem (assignment self) (day, time_slot) v\<rparr>))
                \<subset> set (get_unassigned_variables self))"
proof -
  from backtrack_returns [OF assms, of shuffle g] obtain r where
    r: "backtrack fuel shuffle self g = Some r"
    and inr: "teachers_known self \<longrightarrow> (\<exists>x. r = Inr x)"
    by blast
  have "\<forall>m \<ge> fuel. backtrack m shuffle self g = Some r"
    using backtrack_more_fuel [OF r] by blast
  moreover have "teachers_known self \<longrightarrow>
              (\<exists>found self' g'. backtrack fuel shuffle self g = Some (Inr (found, self', g')))"
    using r inr by auto
  ultimately show ?thesis
    using unassigned_bind_subset by blast
qed

theorem backtrack_terminates_witness:
  "length (get_unassigned_variables init) < 26 \<and> teachers_known init
   \<and> (\<exists>found self' g'. backtrack 26 keep_order init () = Some (Inr (found, self', g')))"
proof -
  have len: "length (get_unassigned_variables init) < 26"
    by (simp add: get_unassigned_variables_def all_slots_def init_def)
  from backtrack_terminates [OF len, of keep_order "()"] init_known
  have "\<exists>found self' g'. backtrack 26 keep_order init () = Some (Inr (found, self', g'))"
    by blast
  with len init_known show ?thesis by blast
qed

subsection \<open>Catalogues without a solution are exhausted\<close>

lemma filter_disjoint_length:
  "(\<And>x. \<not> (P x \<and> Q x)) \<Longrightarrow>
     length (filter P xs) + length (filter Q xs) = length (filter (\<lambda>x. P x \<or> Q x) xs)"
  by (induction xs) auto

lemma sum_counts:
  "distinct ks \<Longrightarrow>
     (\<Sum>k\<leftarrow>ks. int (length (filter (\<lambda>b. f b = k) xs))) =
       int (length (filter (\<lambda>b. f b \<in> set ks) xs))"
proof (induction ks)
  case Nil
  show ?case by simp
next
  case (Cons k ks)
  have "length (filter (\<lambda>b. f b = k) xs) + length (filter (\<lambda>b. f b \<in> set ks) xs) =
          length (filter (\<lambda>b. f b = k \<or> f b \<in> set ks) xs)"
    using Cons.prems by (intro filter_disjoint_length) auto
  with Cons show ?case by simp
qed

lemma total_count_le:
  assumes "distinct (map fst (subject_periods s))"
  shows "(\<Sum>p\<leftarrow>subject_periods s. get_subject_count s (fst p)) \<le> int (length (assignment s))"
proof -
  have "(\<Sum>p\<leftarrow>subject_periods s. get_subject_count s (fst p)) =
          (\<Sum>k\<leftarrow>map fst (subject_periods s).
             int (length (filter (\<lambda>b. fst (snd b) = k) (assignment s))))"
    by (simp add: get_subject_count_eq comp_def)
  also have "\<dots> = int (length (filter (\<lambda>b. fst (snd b) \<in> set (map fst (subject_periods s)))
                                  (assignment s)))"
    by (rule sum_counts [OF assms])
  also have "\<dots> \<le> int (length (assignment s))"
    by simp
  finally show ?thesis .
qed

lemma bound_slots_le:
  assumes "consistent s"
  shows "length (assignment s) \<le> length (all_slots s)"
proof -
  from assms have d: "distinct (map fst (assignment s))"
    and sub: "fst ` set (assignment s) \<subseteq> set (all_slots s)"
    by (simp_all add: consistent_def)
  have "length (assignment s) = card (set (map fst (assignment s)))"
    using distinct_card [OF d] by simp
  also have "\<dots> \<le> card (set (all_slots s))"
    using sub by (intro card_mono) simp_all
  also have "\<dots> \<le> length (all_slots s)"
    by (rule card_length)
  finally show ?thesis .
qed

lemma complete_not_over_capacity:
  assumes con: "consistent s" and keys: "distinct (map fst (subject_periods s))"
    and com: "is_complete s"
  shows "\<not> over_capacity s"
proof -
  have "sum_list (map snd (subject_periods s))
          \<le> (\<Sum>p\<leftarrow>subject_periods s. get_subject_count s (fst p))"
    using com by (intro sum_list_mono) (auto simp: is_complete_iff)
  also have "\<dots> \<le> int (length (assignment s))"
    by (rule total_count_le [OF keys])
  also have "\<dots> \<le> int (length (all_slots s))"
    using bound_slots_le [OF con] by simp
  finally show ?thesis
    by (simp add: over_capacity_def)
qed

lemma complete_not_unreachable:
  assumes con: "consistent s" and com: "is_complete s"
  shows "\<not> unreachable_subject s"
proof
  assume "unreachable_subject s"
  then obtain subject required where
    sp: "(subject, required) \<in> set (subject_periods s)" and pos: "0 < required"
    and none: "\<forall>teacher \<in> set (teachers s). \<not> capable s teacher subject"
    by (auto simp: unreachable_subject_def)
  from com sp have "required \<le> get_subject_count s subject"
    by (auto simp: is_complete_iff)
  with pos have "filter (\<lambda>b. fst (snd b) = subject) (assignment s) \<noteq> []"
    by (auto simp: get_subject_count_eq)
  then obtain b where b: "b \<in> set (assignment s)" "fst (snd b) = subject"
    by (metis (mono_tags, lifting) filter_False)
  obtain slot teacher classroom where "b = (slot, subject, teacher, classroom)"
    using b(2) by (cases b) auto
  with b(1) con have "teacher \<in> set (teachers s)" "capable s teacher subject"
    by (auto simp: consistent_def)
  with none show False by blast
qed

lemma over_capacity_assignment [simp]:
  "over_capacity (s\<lparr>assignment := a\<rparr>) = over_capacity s"
  by (simp add: over_capacity_def)

lemma unreachable_subject_assignment [simp]:
  "unreachable_subject (s\<lparr>assignment := a\<rparr>) = unreachable_subject s"
  by (simp add: unreachable_subject_def)

lemma solve_found_feasible:
  assumes sh: "is_shuffle shuffle" and keys: "distinct (map fst (subject_periods self))"
    and run: "solve fuel shuffle self g = Some (Inr (True, self', g'))"
  shows "feasible self \<and> \<not> over_capacity self \<and> \<not> unreachable_subject self"
proof -
  have start: "visited self (self\<lparr>assignment := []\<rparr>)"
    by (rule visited.start)
  from run have r:
    "backtrack fuel shuffle (self\<lparr>assignment := []\<rparr>) g = Some (Inr (True, self', g'))"
    by (simp add: solve_def)
  from backtrack_visited [OF sh start r]
  have vis: "visited self self'" and com: "is_complete self'"
    by simp_all
  have con: "consistent self'"
    by (rule visited_consistent [OF vis keys])
  have cat: "self' = self\<lparr>assignment := assignment self'\<rparr>"
    by (rule visited_catalogue [OF vis])
  have keys': "distinct (map fst (subject_periods self'))"
    using keys visited_subject_periods [OF vis] by simp
  have "feasible self"
    unfolding feasible_def using con com cat by metis
  moreover have "\<not> over_capacity self"
    using complete_not_over_capacity [OF con keys' com] by (subst (asm) cat) simp
  moreover have "\<not> unreachable_subject self"
    using complete_not_unreachable [OF con com] by (subst (asm) cat) simp
  ultimately show ?thesis by blast
qed

lemma history_30_facts:
  "teachers_known history_30" "distinct (map fst (subject_periods history_30))"
  "length (all_slots history_30) < 26" "over_capacity history_30"
  by (simp_all add: teachers_known_def over_capacity_def all_slots_def history_30_def init_def)

lemma no_historian_facts:
  "teachers_known no_historian" "distinct (map fst (subject_periods no_historian))"
  "length (all_slots no_historian) < 26" "unreachable_subject no_historian"
  by (simp_all add: teachers_known_def unreachable_subject_def capable_def all_slots_def
      no_historian_def init_def)

text \<open>
  Claim C7. Let every teacher of \<open>teachers\<close> have an entry in \<open>teacher_subjects\<close> and the
  keys of \<open>subject_periods\<close> be distinct. If the catalogue has no solution, and in
  particular if its quotas add up to more than the number of slots or if a subject with
  a positive quota has no capable teacher, then \<open>solve\<close> returns \<open>False\<close>, with the
  assignment empty, for every generator that returns permutations and every state of it.
\<close>

theorem infeasible_exhausted:
  assumes "is_shuffle shuffle" and "teachers_known self"
    and "distinct (map fst (subject_periods self))"
    and "length (all_slots self) < fuel"
    and "\<not> feasible self \<or> over_capacity self \<or> unreachable_subject self"
  shows "\<exists>g'. solve fuel shuffle self g = Some (Inr (False, self\<lparr>assignment := []\<rparr>, g'))"
proof -
  have "length (get_unassigned_variables (self\<lparr>assignment := []\<rparr>)) < fuel"
    using assms(4) by (simp add: get_unassigned_variables_def)
  from backtrack_returns [OF this, of shuffle g] assms(2)
  obtain found self' g' where
    r: "backtrack fuel shuffle (self\<lparr>assignment := []\<rparr>) g = Some (Inr (found, self', g'))"
    by auto
  have nf: "\<not> found"
  proof
    assume found
    with r have "solve fuel shuffle self g = Some (Inr (True, self', g'))"
      by (simp add: solve_def)
    from solve_found_feasible [OF assms(1,3) this] assms(5) show False by blast
  qed
  from r nf have
    "backtrack fuel shuffle (self\<lparr>assignment := []\<rparr>) g = Some (Inr (False, self', g'))"
    by simp
  then have "self' = self\<lparr>assignment := []\<rparr>"
    by (rule backtrack_False_restores)
  with r nf show ?thesis
    by (auto simp: solve_def)
qed

theorem infeasible_exhausted_witness:
  "is_shuffle keep_order
   \<and> teachers_known history_30 \<and> distinct (map fst (subject_periods history_30))
   \<and> length (all_slots history_30) < 26 \<and> over_capacity history_30
   \<and> (\<exists>g'. solve 26 keep_order history_30 () =
              Some (Inr (False, history_30\<lparr>assignment := []\<rparr>, g')))
   \<and> teachers_known no_historian \<and> distinct (map fst (subject_periods no_historian))
   \<and> length (all_slots no_historian) < 26 \<and> unreachable_subject no_historian
   \<and> (\<exists>g'. solve 26 keep_order no_historian () =
              Some (Inr (False, no_historian\<lparr>assignment := []\<rparr>, g')))"
proof -
  have a: "\<exists>g'. solve 26 keep_order history_30 () =
              Some (Inr (False, history_30\<lparr>assignment := []\<rparr>, g'))"
    by (rule infeasible_exhausted [OF is_shuffle_keep_order history_30_facts(1-3)])
       (simp add: history_30_facts(4))
  have b: "\<exists>g'. solve 26 keep_order no_historian () =
              Some (Inr (False, no_historian\<lparr>assignment := []\<rparr>, g'))"
    by (rule infeasible_exhausted [OF is_shuffle_keep_order no_historian_facts(1-3)])
       (simp add: no_historian_facts(4))
  show ?thesis
    using is_shuffle_keep_order history_30_facts no_historian_facts a b by blast
qed

end
